theory Spec2Isabelle
  imports Complex_Main "HOL-Library.Sublist" "HOL-Library.Char_ord"
begin

section \<open>Data model of mincombo.py\<close>

text \<open>
  A combo is a Python list \<^verbatim>\<open>[cost, item1, item2, ...]\<close>; the driver builds it from
  the comma-separated fields of a line, so every element is a string, the cost included.
  \<^verbatim>\<open>combo[0]\<close> is the cost and \<^verbatim>\<open>combo[1:]\<close> are the items. A menu is a list of
  combos, a selection vector (\<^verbatim>\<open>item_combo\<close>) a list of integers.
\<close>

type_synonym combo = "string list"
type_synonym menu = "combo list"

text \<open>The exceptions the program can raise, by the statement that raises them.\<close>

datatype error =
    AttributeError   \<comment> \<open>an attribute a Python list does not have, as in \<^verbatim>\<open>menu.length\<close>\<close>
  | BareRaise        \<comment> \<open>the statement \<^verbatim>\<open>raise\<close> with no active exception\<close>
  | IndexError       \<comment> \<open>\<^verbatim>\<open>xs[i]\<close> out of range\<close>
  | KeyError         \<comment> \<open>\<^verbatim>\<open>d[k]\<close> for a missing key\<close>
  | ValueError       \<comment> \<open>\<^verbatim>\<open>float(s)\<close> for a string that is no number\<close>

text \<open>
  Python floats: the finite ones are rationals, and there are two infinities and NaN.
  Comparison is exact on this representation. Sum and product are taken without
  rounding; the program only reaches them after the length check of \<^verbatim>\<open>get_price\<close>.
\<close>

datatype pyfloat = Fin rat | PosInf | NegInf | NaN

fun float_lt :: "pyfloat \<Rightarrow> pyfloat \<Rightarrow> bool" where
  "float_lt NaN _ = False"
| "float_lt _ NaN = False"
| "float_lt (Fin a) (Fin b) = (a < b)"
| "float_lt (Fin a) PosInf = True"
| "float_lt (Fin a) NegInf = False"
| "float_lt PosInf _ = False"
| "float_lt NegInf NegInf = False"
| "float_lt NegInf _ = True"

fun float_add :: "pyfloat \<Rightarrow> pyfloat \<Rightarrow> pyfloat" where
  "float_add NaN _ = NaN"
| "float_add _ NaN = NaN"
| "float_add (Fin a) (Fin b) = Fin (a + b)"
| "float_add (Fin a) PosInf = PosInf"
| "float_add (Fin a) NegInf = NegInf"
| "float_add PosInf NegInf = NaN"
| "float_add PosInf _ = PosInf"
| "float_add NegInf PosInf = NaN"
| "float_add NegInf _ = NegInf"

fun float_mul_int :: "pyfloat \<Rightarrow> int \<Rightarrow> pyfloat" where
  "float_mul_int NaN k = NaN"
| "float_mul_int (Fin a) k = Fin (a * of_int k)"
| "float_mul_int PosInf k = (if k = 0 then NaN else if 0 < k then PosInf else NegInf)"
| "float_mul_int NegInf k = (if k = 0 then NaN else if 0 < k then NegInf else PosInf)"

text \<open>
  A value that \<^verbatim>\<open>get_min_cost\<close> returns and the driver keeps in \<^verbatim>\<open>min_cost\<close>: the cost
  string of a combo as read, or a float.
\<close>

datatype pyval = Str string | Flt pyfloat

text \<open>
  \<^verbatim>\<open>float(x)\<close>. On a float it is the identity. On a string it parses a number or raises
  ValueError; the parser is the language's, so it is the parameter \<open>parse\<close> of every
  function that converts (\<open>None\<close> stands for the strings it rejects).
\<close>

fun py_float :: "(string \<Rightarrow> pyfloat option) \<Rightarrow> pyval \<Rightarrow> error + pyfloat" where
  "py_float parse (Flt f) = Inr f"
| "py_float parse (Str s) = (case parse s of None \<Rightarrow> Inl ValueError | Some f \<Rightarrow> Inr f)"

text \<open>
  \<^verbatim>\<open>xs.length\<close> on a list: Python lists have no attribute \<^verbatim>\<open>length\<close> (the length is
  \<^verbatim>\<open>len(xs)\<close>), so the attribute access raises AttributeError whatever the list is.
\<close>

definition attr_length :: "'a list \<Rightarrow> error + nat" where
  "attr_length xs = Inl AttributeError"

section \<open>reduce_menu\<close>

text \<open>
  The loop of \<^verbatim>\<open>reduce_menu\<close> over the combos, with the two accumulators
  \<^verbatim>\<open>reduced_menu\<close> and \<^verbatim>\<open>flat_menu\<close>. \<^verbatim>\<open>len(list(set(a) & set(b)))\<close> is the number of
  elements of the intersection.
\<close>

fun reduce_loop :: "menu \<Rightarrow> string list \<Rightarrow> menu \<Rightarrow> string list \<Rightarrow> menu \<times> string list" where
  "reduce_loop [] items reduced_menu flat_menu = (reduced_menu, flat_menu)"
| "reduce_loop (combo # rest) items reduced_menu flat_menu =
     (if card (set (drop 1 combo) \<inter> set items) > 0
      then reduce_loop rest items (reduced_menu @ [combo]) (flat_menu @ drop 1 combo)
      else reduce_loop rest items reduced_menu flat_menu)"

definition reduce_menu :: "menu \<Rightarrow> string list \<Rightarrow> menu option" where
  "reduce_menu menu items =
     (case reduce_loop menu items [] [] of
        (reduced_menu, flat_menu) \<Rightarrow>
          if card (set flat_menu \<inter> set items) \<noteq> length items then None
          else Some reduced_menu)"

section \<open>get_price\<close>

text \<open>
  The loop \<^verbatim>\<open>for i in range(len(item_combo))\<close> of \<^verbatim>\<open>get_price\<close>, over the list of
  indices still to visit. \<^verbatim>\<open>menu[i]\<close> and \<^verbatim>\<open>menu[i][0]\<close> raise IndexError out of range.
\<close>

fun price_loop ::
  "(string \<Rightarrow> pyfloat option) \<Rightarrow> menu \<Rightarrow> int list \<Rightarrow> nat list \<Rightarrow> pyfloat \<Rightarrow> error + pyfloat" where
  "price_loop parse menu item_combo [] price = Inr price"
| "price_loop parse menu item_combo (i # rest) price =
     (if length menu \<le> i then Inl IndexError
      else if menu ! i = [] then Inl IndexError
      else case py_float parse (Str (menu ! i ! 0)) of
             Inl e \<Rightarrow> Inl e
           | Inr c \<Rightarrow>
               price_loop parse menu item_combo rest
                 (float_add price (float_mul_int c (item_combo ! i))))"

text \<open>
  \<^verbatim>\<open>get_price\<close>: the condition \<^verbatim>\<open>menu.length != item_combo.length\<close> is evaluated first,
  left operand first; then the bare \<^verbatim>\<open>raise\<close>; then the loop.
\<close>

definition get_price ::
  "(string \<Rightarrow> pyfloat option) \<Rightarrow> menu \<Rightarrow> int list \<Rightarrow> error + pyfloat" where
  "get_price parse menu item_combo =
     (case attr_length menu of
        Inl e \<Rightarrow> Inl e
      | Inr m \<Rightarrow>
          (case attr_length item_combo of
             Inl e \<Rightarrow> Inl e
           | Inr c \<Rightarrow>
               if m \<noteq> c then Inl BareRaise
               else price_loop parse menu item_combo [0..<length item_combo] (Fin 0)))"

section \<open>get_item_combos\<close>

text \<open>
  \<^verbatim>\<open>itertools.combinations(xs, k)\<close>: the \<open>k\<close>-element subsequences of \<open>xs\<close>, in
  lexicographic order of the positions chosen, as the library documents it.
\<close>

fun combinations :: "'a list \<Rightarrow> nat \<Rightarrow> 'a list list" where
  "combinations xs 0 = [[]]"
| "combinations [] (Suc k) = []"
| "combinations (x # xs) (Suc k) = map ((#) x) (combinations xs k) @ combinations xs (Suc k)"

text \<open>
  \<^verbatim>\<open>s = [0] * n\<close> followed by \<^verbatim>\<open>s[bit] = 1\<close> for each bit. Every bit comes from
  \<^verbatim>\<open>range(n)\<close>, so the assignment is never out of range.
\<close>

definition set_bits :: "nat \<Rightarrow> nat list \<Rightarrow> int list" where
  "set_bits n bits = foldl (\<lambda>s bit. s[bit := 1]) (replicate n 0) bits"

definition get_item_combos :: "nat \<Rightarrow> int list list" where
  "get_item_combos n =
     concat (map (\<lambda>k. map (set_bits n) (combinations [0..<n] (k + 1))) [0..<n])"

section \<open>is_valid_combo\<close>

text \<open>The dictionary \<^verbatim>\<open>has_items\<close> is a map; the three loops follow.\<close>

fun init_has_items :: "string list \<Rightarrow> (string \<rightharpoonup> bool) \<Rightarrow> (string \<rightharpoonup> bool)" where
  "init_has_items [] has_items = has_items"
| "init_has_items (item # rest) has_items = init_has_items rest (has_items(item \<mapsto> False))"

fun mark_combo :: "combo \<Rightarrow> nat list \<Rightarrow> (string \<rightharpoonup> bool) \<Rightarrow> (string \<rightharpoonup> bool)" where
  "mark_combo combo [] has_items = has_items"
| "mark_combo combo (y # rest) has_items =
     mark_combo combo rest (has_items(combo ! (y + 1) \<mapsto> True))"

fun mark_loop ::
  "menu \<Rightarrow> int list \<Rightarrow> nat list \<Rightarrow> (string \<rightharpoonup> bool) \<Rightarrow> error + (string \<rightharpoonup> bool)" where
  "mark_loop menu item_combo [] has_items = Inr has_items"
| "mark_loop menu item_combo (x # rest) has_items =
     (if item_combo ! x > 0
      then (if length menu \<le> x then Inl IndexError
            else mark_loop menu item_combo rest
                   (mark_combo (menu ! x) [0..<length (menu ! x) - 1] has_items))
      else mark_loop menu item_combo rest has_items)"

fun check_items :: "string list \<Rightarrow> (string \<rightharpoonup> bool) \<Rightarrow> error + bool" where
  "check_items [] has_items = Inr True"
| "check_items (item # rest) has_items =
     (case has_items item of
        None \<Rightarrow> Inl KeyError
      | Some b \<Rightarrow> if \<not> b then Inr False else check_items rest has_items)"

definition is_valid_combo :: "menu \<Rightarrow> int list \<Rightarrow> string list \<Rightarrow> error + bool" where
  "is_valid_combo menu item_combo items =
     (case attr_length menu of
        Inl e \<Rightarrow> Inl e
      | Inr m \<Rightarrow>
          (case attr_length item_combo of
             Inl e \<Rightarrow> Inl e
           | Inr c \<Rightarrow>
               if m \<noteq> c then Inl BareRaise
               else (case mark_loop menu item_combo [0..<length item_combo]
                            (init_has_items items Map.empty) of
                       Inl e \<Rightarrow> Inl e
                     | Inr has_items \<Rightarrow> check_items items has_items)))"

section \<open>get_min_cost\<close>

text \<open>The loop over \<^verbatim>\<open>item_combos\<close>, with the running \<^verbatim>\<open>min_price\<close>.\<close>

fun min_cost_loop ::
  "(string \<Rightarrow> pyfloat option) \<Rightarrow> menu \<Rightarrow> string list \<Rightarrow> int list list \<Rightarrow> pyfloat
     \<Rightarrow> error + pyfloat" where
  "min_cost_loop parse menu items [] min_price = Inr min_price"
| "min_cost_loop parse menu items (item_combo # rest) min_price =
     (case is_valid_combo menu item_combo items of
        Inl e \<Rightarrow> Inl e
      | Inr valid \<Rightarrow>
          if valid
          then (case get_price parse menu item_combo of
                  Inl e \<Rightarrow> Inl e
                | Inr combo_price \<Rightarrow>
                    min_cost_loop parse menu items rest
                      (if float_lt combo_price min_price then combo_price else min_price))
          else min_cost_loop parse menu items rest min_price)"

text \<open>
  \<^verbatim>\<open>get_min_cost\<close> returns None, the element \<^verbatim>\<open>menu[0][0]\<close> as it is stored, or the
  float \<^verbatim>\<open>min_price\<close>, which starts at \<^verbatim>\<open>float('inf')\<close>.
\<close>

definition get_min_cost ::
  "(string \<Rightarrow> pyfloat option) \<Rightarrow> menu \<Rightarrow> string list \<Rightarrow> error + pyval option" where
  "get_min_cost parse menu items =
     (if length menu = 0 then Inr None
      else if length menu = 1
      then (if menu ! 0 = [] then Inl IndexError else Inr (Some (Str (menu ! 0 ! 0))))
      else (case min_cost_loop parse menu items (get_item_combos (length menu)) PosInf of
              Inl e \<Rightarrow> Inl e
            | Inr min_price \<Rightarrow> Inr (Some (Flt min_price))))"

section \<open>The driver\<close>

text \<open>
  \<^verbatim>\<open>s.strip(chars)\<close> removes the characters of \<open>chars\<close> from both ends;
  \<^verbatim>\<open>s.strip()\<close> removes whitespace; \<^verbatim>\<open>s.split(',')\<close> cuts at every comma and always
  returns at least one field.
\<close>

definition strip_chars :: "string \<Rightarrow> string \<Rightarrow> string" where
  "strip_chars chars s =
     rev (dropWhile (\<lambda>c. c \<in> set chars) (rev (dropWhile (\<lambda>c. c \<in> set chars) s)))"

definition whitespace :: string where
  "whitespace = [CHR 0x20, CHR 0x09, CHR 0x0A, CHR 0x0D, CHR 0x0B, CHR 0x0C]"

fun split_comma :: "string \<Rightarrow> string list" where
  "split_comma [] = [[]]"
| "split_comma (c # cs) =
     (if c = CHR '','' then [] # split_comma cs
      else (case split_comma cs of
              [] \<Rightarrow> [[c]]
            | w # ws \<Rightarrow> (c # w) # ws))"

definition format_line :: "string \<Rightarrow> string list" where
  "format_line line = map (strip_chars whitespace) (split_comma (strip_chars [CHR 0x0D, CHR 0x0A] line))"

text \<open>
  The block the driver runs when the restaurant changes, and once more after the last
  line: it takes the running \<^verbatim>\<open>(min_cost, min_restaurant)\<close> and returns it updated.
  \<^verbatim>\<open>and\<close> evaluates its right operand only when the left one holds, and
  \<^verbatim>\<open>float(curr_min_cost)\<close> before \<^verbatim>\<open>float(min_cost)\<close>.
\<close>

definition check_restaurant ::
  "(string \<Rightarrow> pyfloat option) \<Rightarrow> string list \<Rightarrow> menu \<Rightarrow> string option
     \<Rightarrow> pyval \<times> string option \<Rightarrow> error + (pyval \<times> string option)" where
  "check_restaurant parse items menu curr_restaurant best =
     (if length menu > 0
      then (case reduce_menu menu items of
              None \<Rightarrow> Inr best
            | Some reduced_menu \<Rightarrow>
                (case get_min_cost parse reduced_menu items of
                   Inl e \<Rightarrow> Inl e
                 | Inr None \<Rightarrow> Inr best
                 | Inr (Some curr_min_cost) \<Rightarrow>
                     (case py_float parse curr_min_cost of
                        Inl e \<Rightarrow> Inl e
                      | Inr c \<Rightarrow>
                          (case py_float parse (fst best) of
                             Inl e \<Rightarrow> Inl e
                           | Inr m \<Rightarrow>
                               if float_lt c m then Inr (curr_min_cost, curr_restaurant)
                               else Inr best))))
      else Inr best)"

text \<open>
  The loop over the lines of the file. The state is
  \<^verbatim>\<open>(min_cost, min_restaurant, curr_restaurant, menu)\<close>.
\<close>

fun main_loop ::
  "(string \<Rightarrow> pyfloat option) \<Rightarrow> string list \<Rightarrow> string list
     \<Rightarrow> (pyval \<times> string option) \<times> string option \<times> menu
     \<Rightarrow> error + ((pyval \<times> string option) \<times> string option \<times> menu)" where
  "main_loop parse items [] st = Inr st"
| "main_loop parse items (raw # rest) (best, curr_restaurant, menu) =
     (case format_line raw of
        [] \<Rightarrow> Inl IndexError
      | name # fields \<Rightarrow>
          if curr_restaurant \<noteq> Some name
          then (case check_restaurant parse items menu curr_restaurant best of
                  Inl e \<Rightarrow> Inl e
                | Inr best' \<Rightarrow> main_loop parse items rest (best', Some name, [fields]))
          else main_loop parse items rest (best, curr_restaurant, menu @ [fields]))"

text \<open>
  What the driver prints once the file is open: the message for an empty item list, or
  the result line (None, or the restaurant and its cost).
\<close>

datatype printed = NoItemsProvided | Result "(string \<times> pyval) option"

definition main :: "(string \<Rightarrow> pyfloat option) \<Rightarrow> string list \<Rightarrow> string list \<Rightarrow> error + printed" where
  "main parse lines items =
     (if length items = 0 then Inr NoItemsProvided
      else (case main_loop parse items lines ((Flt PosInf, None), None, []) of
              Inl e \<Rightarrow> Inl e
            | Inr (best, curr_restaurant, menu) \<Rightarrow>
                (case check_restaurant parse items menu curr_restaurant best of
                   Inl e \<Rightarrow> Inl e
                 | Inr (min_cost, min_restaurant) \<Rightarrow>
                     Inr (Result (case min_restaurant of
                                    None \<Rightarrow> None
                                  | Some r \<Rightarrow> Some (r, min_cost))))))"

text \<open>
  One reading of \<^verbatim>\<open>float\<close> on strings, for running examples: a string of one to
  fifteen decimal digits is the integer it writes, which a float holds exactly. The
  strings of the examples are of that kind.
\<close>

definition digit_val :: "char \<Rightarrow> nat" where
  "digit_val c = of_char c - 48"

definition parse_digits :: "string \<Rightarrow> pyfloat option" where
  "parse_digits s =
     (if s \<noteq> [] \<and> length s \<le> 15 \<and> list_all (\<lambda>c. CHR ''0'' \<le> c \<and> c \<le> CHR ''9'') s
      then Some (Fin (of_nat (foldl (\<lambda>a c. 10 * a + digit_val c) 0 s)))
      else None)"

section \<open>The order of the selection vectors\<close>

text \<open>
  The indices a selection vector chooses, in increasing order; the lexicographic order
  on such index lists; and the order in which the claim about \<^verbatim>\<open>get_item_combos\<close>
  lists the vectors: fewer chosen indices first, and among vectors with the same number
  of chosen indices the lexicographically smaller index list first.
\<close>

definition chosen :: "int list \<Rightarrow> nat list" where
  "chosen v = filter (\<lambda>i. v ! i = 1) [0..<length v]"

fun index_less :: "nat list \<Rightarrow> nat list \<Rightarrow> bool" where
  "index_less [] [] = False"
| "index_less [] (j # js) = True"
| "index_less (i # is) [] = False"
| "index_less (i # is) (j # js) = (i < j \<or> (i = j \<and> index_less is js))"

definition combo_before :: "int list \<Rightarrow> int list \<Rightarrow> bool" where
  "combo_before a b =
     (length (chosen a) < length (chosen b)
      \<or> (length (chosen a) = length (chosen b) \<and> index_less (chosen a) (chosen b)))"

text \<open>
  The index tuples that \<^verbatim>\<open>get_item_combos\<close> turns into vectors, in the order of its
  two outer loops, and the order above on the tuples themselves.
\<close>

definition index_lists :: "nat \<Rightarrow> nat list list" where
  "index_lists n = concat (map (\<lambda>k. combinations [0..<n] (Suc k)) [0..<n])"

definition index_before :: "nat list \<Rightarrow> nat list \<Rightarrow> bool" where
  "index_before a b = (length a < length b \<or> (length a = length b \<and> index_less a b))"

section \<open>Properties of reduce_menu\<close>

lemma reduce_loop_eq:
  "reduce_loop menu items reduced flat =
     (reduced @ filter (\<lambda>c. set (drop 1 c) \<inter> set items \<noteq> {}) menu,
      flat @ concat (map (drop 1) (filter (\<lambda>c. set (drop 1 c) \<inter> set items \<noteq> {}) menu)))"
  by (induction menu arbitrary: reduced flat) (simp_all add: card_gt_0_iff)

lemma flat_inter_items:
  "set (concat (map (drop 1) (filter (\<lambda>c. set (drop 1 c) \<inter> set items \<noteq> {}) menu))) \<inter> set items
     = (\<Union>c \<in> set menu. set (drop 1 c)) \<inter> set items"
  by auto

lemma reduce_menu_None_iff:
  "reduce_menu menu items = None \<longleftrightarrow>
     card ((\<Union>c \<in> set menu. set (drop 1 c)) \<inter> set items) \<noteq> length items"
proof -
  have "reduce_menu menu items =
          (if card ((\<Union>c \<in> set menu. set (drop 1 c)) \<inter> set items) \<noteq> length items then None
           else Some (filter (\<lambda>c. set (drop 1 c) \<inter> set items \<noteq> {}) menu))"
    unfolding reduce_menu_def reduce_loop_eq
    by (simp only: append_Nil prod.case flat_inter_items)
  then show ?thesis by (simp split: if_splits)
qed

lemma reduce_menu_Some:
  "reduce_menu menu items = Some rm \<Longrightarrow>
     rm = filter (\<lambda>c. set (drop 1 c) \<inter> set items \<noteq> {}) menu"
  by (simp add: reduce_menu_def reduce_loop_eq split: if_splits)

lemma card_inter_eq_length_iff:
  assumes "distinct items"
  shows "card (A \<inter> set items) = length items \<longleftrightarrow> set items \<subseteq> A"
proof
  assume h: "card (A \<inter> set items) = length items"
  have "card (A \<inter> set items) = card (set items)"
    using h assms by (simp add: distinct_card)
  moreover have "A \<inter> set items \<subseteq> set items" by blast
  ultimately have "A \<inter> set items = set items"
    by (meson List.finite_set card_subset_eq)
  then show "set items \<subseteq> A" by blast
next
  assume "set items \<subseteq> A"
  then have "A \<inter> set items = set items" by blast
  then show "card (A \<inter> set items) = length items"
    using assms by (simp add: distinct_card)
qed

lemma card_inter_less_length:
  assumes "\<not> distinct items"
  shows "card (A \<inter> set items) < length items"
proof -
  have "card (A \<inter> set items) \<le> card (set items)"
    by (simp add: card_mono)
  moreover have "card (set items) < length items"
    using assms card_length [of items] distinct_card [of items] card_distinct [of items]
    by (cases "card (set items) = length items") auto
  ultimately show ?thesis by simp
qed

text \<open>
  C2. For a non-empty request of distinct items, \<^verbatim>\<open>reduce_menu\<close> returns None exactly
  when some requested item is among the items (\<^verbatim>\<open>combo[1:]\<close>) of no combo of the menu;
  and when it returns a reduced menu, every requested item is among the items of at
  least one combo of the reduced menu.
\<close>

theorem reduce_menu_infeasible_iff:
  assumes "distinct items" and "items \<noteq> []"
  shows "(reduce_menu menu items = None \<longleftrightarrow>
            (\<exists>i \<in> set items. \<forall>c \<in> set menu. i \<notin> set (drop 1 c)))
         \<and> (\<forall>rm. reduce_menu menu items = Some rm \<longrightarrow>
               (\<forall>i \<in> set items. \<exists>c \<in> set rm. i \<in> set (drop 1 c)))"
proof (intro conjI allI impI)
  show "reduce_menu menu items = None \<longleftrightarrow>
          (\<exists>i \<in> set items. \<forall>c \<in> set menu. i \<notin> set (drop 1 c))"
    unfolding reduce_menu_None_iff card_inter_eq_length_iff [OF assms(1)] by blast
next
  fix rm
  assume h: "reduce_menu menu items = Some rm"
  then have rm: "rm = filter (\<lambda>c. set (drop 1 c) \<inter> set items \<noteq> {}) menu"
    by (rule reduce_menu_Some)
  from h have "reduce_menu menu items \<noteq> None" by simp
  then have "set items \<subseteq> (\<Union>c \<in> set menu. set (drop 1 c))"
    unfolding reduce_menu_None_iff card_inter_eq_length_iff [OF assms(1)] by simp
  then show "\<forall>i \<in> set items. \<exists>c \<in> set rm. i \<in> set (drop 1 c)"
    unfolding rm by fastforce
qed

theorem reduce_menu_infeasible_iff_witness:
  "distinct [''coffee'', ''apples''] \<and> [''coffee'', ''apples''] \<noteq> []
   \<and> reduce_menu [[''4'', ''bananas''], [''5'', ''coffee'']] [''coffee'', ''apples''] = None
   \<and> reduce_menu [[''5'', ''coffee''], [''1'', ''tea''], [''3'', ''apples'']] [''coffee'', ''apples'']
       = Some [[''5'', ''coffee''], [''3'', ''apples'']]
   \<and> (\<exists>c \<in> set [[''5'', ''coffee''], [''3'', ''apples'']]. ''apples'' \<in> set (drop 1 c))"
proof -
  have d: "distinct [''coffee'', ''apples'']" and n: "[''coffee'', ''apples''] \<noteq> []" by simp_all
  have r: "reduce_menu [[''5'', ''coffee''], [''1'', ''tea''], [''3'', ''apples'']] [''coffee'', ''apples'']
       = Some [[''5'', ''coffee''], [''3'', ''apples'']]"
    by code_simp
  have m: "\<exists>i \<in> set [''coffee'', ''apples''].
             \<forall>c \<in> set [[''4'', ''bananas''], [''5'', ''coffee'']]. i \<notin> set (drop 1 c)"
    by simp
  from reduce_menu_infeasible_iff [OF d n, of "[[''4'', ''bananas''], [''5'', ''coffee'']]"] m
  have "reduce_menu [[''4'', ''bananas''], [''5'', ''coffee'']] [''coffee'', ''apples''] = None"
    by blast
  moreover from reduce_menu_infeasible_iff [OF d n,
      of "[[''5'', ''coffee''], [''1'', ''tea''], [''3'', ''apples'']]"] r
  have "\<forall>i \<in> set [''coffee'', ''apples''].
          \<exists>c \<in> set [[''5'', ''coffee''], [''3'', ''apples'']]. i \<in> set (drop 1 c)"
    by blast
  then have "\<exists>c \<in> set [[''5'', ''coffee''], [''3'', ''apples'']]. ''apples'' \<in> set (drop 1 c)"
    by simp
  ultimately show ?thesis using d n r by blast
qed

section \<open>A request with a repeated item\<close>

lemma split_comma_nonempty: "split_comma s \<noteq> []"
  by (induction s) (simp_all split: list.splits)

lemma format_line_nonempty: "format_line raw \<noteq> []"
  by (simp add: format_line_def split_comma_nonempty)

lemma reduce_menu_duplicate:
  "\<not> distinct items \<Longrightarrow> reduce_menu menu items = None"
  unfolding reduce_menu_None_iff using card_inter_less_length [of items] by (simp add: less_imp_neq)

lemma check_restaurant_duplicate:
  "\<not> distinct items \<Longrightarrow> check_restaurant parse items menu cur best = Inr best"
  by (simp add: check_restaurant_def reduce_menu_duplicate)

lemma main_loop_duplicate:
  "\<not> distinct items \<Longrightarrow>
     \<exists>cur menu. main_loop parse items lines (best, st) = Inr (best, cur, menu)"
proof (induction lines arbitrary: st)
  case Nil
  then show ?case by (cases st) simp
next
  case (Cons raw rest)
  obtain cur menu where st: "st = (cur, menu)" by (cases st)
  obtain name fields where fl: "format_line raw = name # fields"
    using format_line_nonempty [of raw] by (cases "format_line raw") auto
  have ih: "\<exists>cur' menu'. main_loop parse items rest (best, st') = Inr (best, cur', menu')" for st'
    using Cons.IH [OF Cons.prems] .
  show ?case
    by (simp add: st fl check_restaurant_duplicate [OF Cons.prems] ih)
qed

text \<open>
  C10. The feasibility check of \<^verbatim>\<open>reduce_menu\<close> compares the number of distinct
  requested items found in the retained combos with \<^verbatim>\<open>len(items)\<close>, which counts
  repetitions. So for a request that repeats an item \<^verbatim>\<open>reduce_menu\<close> returns None on
  every menu; and the driver, which hands \<^verbatim>\<open>sys.argv[2:]\<close> to it as it is, prints None
  for every file.
\<close>

theorem duplicate_request_infeasible:
  assumes "\<not> distinct items"
  shows "reduce_menu menu items = None \<and> main parse lines items = Inr (Result None)"
proof
  show "reduce_menu menu items = None"
    using assms by (rule reduce_menu_duplicate)
next
  obtain cur m where
    "main_loop parse items lines ((Flt PosInf, None), None, []) = Inr ((Flt PosInf, None), cur, m)"
    using main_loop_duplicate [OF assms, of parse lines "(Flt PosInf, None)" "(None, [])"] by auto
  moreover have "items \<noteq> []" using assms by auto
  ultimately show "main parse lines items = Inr (Result None)"
    by (simp add: main_def check_restaurant_duplicate [OF assms])
qed

theorem duplicate_request_infeasible_witness:
  "\<not> distinct [''coffee'', ''coffee'']
   \<and> reduce_menu [[''5'', ''coffee'']] [''coffee'', ''coffee''] = None
   \<and> main parse_digits [''A,5,coffee''] [''coffee'', ''coffee''] = Inr (Result None)
   \<and> reduce_menu [[''5'', ''coffee'']] [''coffee''] = Some [[''5'', ''coffee'']]"
proof -
  have d: "\<not> distinct [''coffee'', ''coffee'']" by simp
  have "reduce_menu [[''5'', ''coffee'']] [''coffee''] = Some [[''5'', ''coffee'']]"
    by code_simp
  with d duplicate_request_infeasible [OF d, of "[[''5'', ''coffee'']]" parse_digits "[''A,5,coffee'']"]
  show ?thesis by simp
qed

section \<open>get_min_cost on a menu of one combo\<close>

lemma reduced_combo_has_item:
  assumes "reduce_menu menu items = Some rm" and "combo \<in> set rm"
  shows "2 \<le> length combo"
proof -
  have "set (drop 1 combo) \<inter> set items \<noteq> {}"
    using reduce_menu_Some [OF assms(1)] assms(2) by simp
  then have "drop 1 combo \<noteq> []" by auto
  then show ?thesis by (cases combo) (auto simp: Suc_le_eq)
qed

text \<open>
  C8. When \<^verbatim>\<open>reduce_menu\<close> returns a menu of exactly one combo, that combo has a cost
  field, and \<^verbatim>\<open>get_min_cost\<close> on the one-combo menu returns that cost as it is stored,
  whatever the request is: the request is not looked at, so no coverage is validated.
\<close>

theorem get_min_cost_single:
  assumes "reduce_menu menu items = Some [combo]"
  shows "combo \<noteq> [] \<and>
         (\<forall>request. get_min_cost parse [combo] request = Inr (Some (Str (combo ! 0))))"
proof -
  have "2 \<le> length combo"
    using reduced_combo_has_item [OF assms] by simp
  then have "combo \<noteq> []" by auto
  then show ?thesis by (simp add: get_min_cost_def)
qed

theorem get_min_cost_single_witness:
  "reduce_menu [[''10'', ''coffee'', ''apples'', ''bananas''], [''2'', ''tea'']] [''coffee'', ''apples'']
     = Some [[''10'', ''coffee'', ''apples'', ''bananas'']]
   \<and> get_min_cost parse_digits [[''10'', ''coffee'', ''apples'', ''bananas'']] [''coffee'', ''apples'']
     = Inr (Some (Str ''10''))
   \<and> get_min_cost parse_digits [[''10'', ''coffee'', ''apples'', ''bananas'']] [''tea'']
     = Inr (Some (Str ''10''))"
proof -
  have r: "reduce_menu [[''10'', ''coffee'', ''apples'', ''bananas''], [''2'', ''tea'']] [''coffee'', ''apples'']
     = Some [[''10'', ''coffee'', ''apples'', ''bananas'']]"
    by code_simp
  from get_min_cost_single [OF r, of parse_digits] r show ?thesis by simp
qed

section \<open>The length check of get_price and is_valid_combo\<close>

text \<open>
  Both functions start with \<^verbatim>\<open>if (menu.length != item_combo.length): raise\<close>. The
  attribute access on the list \<^verbatim>\<open>menu\<close> raises before anything is compared, so neither
  function gets past its first line.
\<close>

lemma is_valid_combo_raises: "is_valid_combo menu item_combo items = Inl AttributeError"
  by (simp add: is_valid_combo_def attr_length_def)

lemma get_price_raises: "get_price parse menu item_combo = Inl AttributeError"
  by (simp add: get_price_def attr_length_def)

lemma min_cost_loop_raises:
  "item_combos \<noteq> [] \<Longrightarrow>
     min_cost_loop parse menu items item_combos min_price = Inl AttributeError"
  by (cases item_combos) (simp_all add: is_valid_combo_raises)

lemma get_item_combos_first:
  assumes "0 < n"
  shows "get_item_combos n \<noteq> []"
proof -
  have "combinations [0..<n] (Suc 0) \<noteq> []"
    using assms by (cases n) (simp_all add: upt_rec)
  moreover have "0 \<in> set [0..<n]" using assms by simp
  ultimately show ?thesis
    unfolding get_item_combos_def by force
qed

lemma min_cost_search_raises:
  assumes "2 \<le> length menu"
  shows "get_min_cost parse menu items = Inl AttributeError"
proof -
  have "0 < length menu" using assms by linarith
  then have "get_item_combos (length menu) \<noteq> []"
    by (rule get_item_combos_first)
  then have "min_cost_loop parse menu items (get_item_combos (length menu)) PosInf
               = Inl AttributeError"
    by (rule min_cost_loop_raises)
  then show ?thesis using assms by (cases menu) (auto simp: get_min_cost_def)
qed

text \<open>
  C3. The claim is that \<^verbatim>\<open>get_price\<close> and \<^verbatim>\<open>is_valid_combo\<close> raise exactly when the
  two lengths differ. The code raises for every menu and every selection vector, of equal
  lengths as well: both calls end in the AttributeError of \<^verbatim>\<open>menu.length\<close>.
\<close>

theorem length_check_always_raises:
  "get_price parse menu item_combo = Inl AttributeError
   \<and> is_valid_combo menu item_combo items = Inl AttributeError"
  by (simp add: get_price_raises is_valid_combo_raises)

text \<open>
  C4. The claim is that \<^verbatim>\<open>is_valid_combo\<close> returns true exactly when every requested
  item is in a selected combo. On the menu of two combos below, with both selected and
  both requested items covered, the code raises AttributeError instead of returning true.
\<close>

theorem is_valid_combo_covered_raises:
  "is_valid_combo [[''5'', ''coffee''], [''3'', ''apples'']] [1, 1] [''coffee'', ''apples'']
     = Inl AttributeError"
  by (rule is_valid_combo_raises)

text \<open>
  C9. The claim is that \<^verbatim>\<open>get_price\<close> returns the sum of the selected prices. On the
  menu below with both combos selected the claim gives 8.0; the code raises
  AttributeError.
\<close>

theorem get_price_selected_raises:
  "get_price parse_digits [[''5'', ''coffee''], [''3'', ''apples'']] [1, 1] = Inl AttributeError"
  by (rule get_price_raises)

text \<open>
  C1. The claim is that on a menu of two or more combos \<^verbatim>\<open>get_min_cost\<close> returns the
  least price of a covering selection. The code returns nothing there: the first call
  of \<^verbatim>\<open>is_valid_combo\<close> in the loop raises AttributeError, and \<^verbatim>\<open>get_min_cost\<close> does
  not catch it.
\<close>

theorem get_min_cost_two_or_more:
  assumes "2 \<le> length menu"
  shows "get_min_cost parse menu items = Inl AttributeError"
  using assms by (rule min_cost_search_raises)

theorem get_min_cost_two_or_more_witness:
  "get_min_cost parse_digits [[''5'', ''coffee''], [''3'', ''apples'']] [''coffee'', ''apples'']
     = Inl AttributeError"
  using get_min_cost_two_or_more
    [of "[[''5'', ''coffee''], [''3'', ''apples'']]" parse_digits "[''coffee'', ''apples'']"]
  by simp

text \<open>
  C6. The claim is that \<^verbatim>\<open>get_min_cost\<close> returns None on an empty menu, and on a menu
  of two or more combos of which no selection covers the request. The first holds. For
  the second, on the menu below, where no combo has the requested item, the code raises
  AttributeError.
\<close>

theorem get_min_cost_absence:
  "get_min_cost parse [] items = Inr None
   \<and> get_min_cost parse_digits [[''5'', ''coffee''], [''3'', ''tea'']] [''apples'']
       = Inl AttributeError"
proof
  show "get_min_cost parse [] items = Inr None"
    by (simp add: get_min_cost_def)
next
  show "get_min_cost parse_digits [[''5'', ''coffee''], [''3'', ''tea'']] [''apples'']
          = Inl AttributeError"
    by (rule min_cost_search_raises) simp
qed

text \<open>
  C7. The claim is that the driver replaces its running best with a restaurant exactly
  when the restaurant is feasible and strictly cheaper. On the file below restaurant A
  covers the request with its two combos for 8 and B with one combo for 7, so the claim
  has B reported. The driver instead stops in the AttributeError of \<^verbatim>\<open>is_valid_combo\<close>
  when it evaluates A, and reports nothing.
\<close>

theorem main_two_combo_restaurant_raises:
  "main parse_digits [''A,5,coffee'', ''A,3,apples'', ''B,7,coffee,apples''] [''coffee'', ''apples'']
     = Inl AttributeError"
  by code_simp

section \<open>get_item_combos enumerates the non-empty selections\<close>

lemma length_combinations: "length (combinations xs k) = length xs choose k"
  by (induction xs k rule: combinations.induct) simp_all

lemma combinations_elem:
  "ys \<in> set (combinations xs k) \<Longrightarrow> length ys = k \<and> set ys \<subseteq> set xs"
proof (induction xs k arbitrary: ys rule: combinations.induct)
  case (1 xs)
  then show ?case by simp
next
  case (2 k)
  then show ?case by simp
next
  case (3 x xs k)
  from "3.prems" have "ys \<in> (#) x ` set (combinations xs k) \<or> ys \<in> set (combinations xs (Suc k))"
    by simp
  then show ?case
  proof
    assume "ys \<in> (#) x ` set (combinations xs k)"
    then obtain zs where zs: "ys = x # zs" "zs \<in> set (combinations xs k)" by blast
    from "3.IH"(1) [OF zs(2)] have "length zs = k" "set zs \<subseteq> set xs" by simp_all
    then show ?thesis unfolding zs(1) by auto
  next
    assume "ys \<in> set (combinations xs (Suc k))"
    from "3.IH"(2) [OF this] have "length ys = Suc k" "set ys \<subseteq> set xs" by simp_all
    then show ?thesis by auto
  qed
qed

lemma combinations_sorted:
  "sorted_wrt (<) xs \<Longrightarrow> ys \<in> set (combinations xs k) \<Longrightarrow> sorted_wrt (<) (ys :: nat list)"
proof (induction xs k arbitrary: ys rule: combinations.induct)
  case (1 xs)
  then show ?case by simp
next
  case (2 k)
  then show ?case by simp
next
  case (3 x xs k)
  have sx: "sorted_wrt (<) xs" and lt: "\<And>y. y \<in> set xs \<Longrightarrow> x < y"
    using "3.prems"(1) by simp_all
  from "3.prems"(2) have "ys \<in> (#) x ` set (combinations xs k) \<or> ys \<in> set (combinations xs (Suc k))"
    by simp
  then show ?case
  proof
    assume "ys \<in> (#) x ` set (combinations xs k)"
    then obtain zs where zs: "ys = x # zs" "zs \<in> set (combinations xs k)" by blast
    have "sorted_wrt (<) zs" using "3.IH"(1) [OF sx zs(2)] .
    moreover have "set zs \<subseteq> set xs" using combinations_elem [OF zs(2)] by simp
    ultimately show ?thesis unfolding zs(1) using lt by auto
  next
    assume "ys \<in> set (combinations xs (Suc k))"
    then show ?thesis using "3.IH"(2) [OF sx] by simp
  qed
qed

lemma index_less_irrefl: "\<not> index_less a a"
  by (induction a) simp_all

lemma combinations_ordered:
  "sorted_wrt (<) xs \<Longrightarrow> sorted_wrt index_less (combinations xs k)"
proof (induction xs k rule: combinations.induct)
  case (1 xs)
  then show ?case by simp
next
  case (2 k)
  then show ?case by simp
next
  case (3 x xs k)
  have sx: "sorted_wrt (<) xs" and lt: "\<And>y. y \<in> set xs \<Longrightarrow> x < y"
    using "3.prems" by simp_all
  have "sorted_wrt index_less (combinations xs k)" using "3.IH"(1) [OF sx] .
  then have a: "sorted_wrt index_less (map ((#) x) (combinations xs k))"
    by (simp add: sorted_wrt_map)
  have b: "sorted_wrt index_less (combinations xs (Suc k))"
    using "3.IH"(2) [OF sx] .
  have c: "index_less (x # zs) ys"
    if "ys \<in> set (combinations xs (Suc k))" for zs ys
  proof -
    from combinations_elem [OF that] have "length ys = Suc k" "set ys \<subseteq> set xs" by simp_all
    then obtain y ys' where ys: "ys = y # ys'" "y \<in> set xs"
      by (cases ys) auto
    then have "x < y" using lt by simp
    then show ?thesis by (simp add: ys)
  qed
  have "\<forall>a \<in> set (map ((#) x) (combinations xs k)). \<forall>b \<in> set (combinations xs (Suc k)).
          index_less a b"
    using c by auto
  with a b show ?case by (simp only: combinations.simps sorted_wrt_append)
qed

lemma filter_in_combinations:
  "filter P xs \<in> set (combinations xs (length (filter P xs)))"
proof (induction xs)
  case Nil
  then show ?case by simp
next
  case (Cons x xs)
  show ?case
  proof (cases "P x")
    case True
    then show ?thesis using Cons by simp
  next
    case False
    show ?thesis
    proof (cases "length (filter P xs)")
      case 0
      then show ?thesis using False by simp
    next
      case (Suc m)
      then show ?thesis using False Cons by simp
    qed
  qed
qed

lemma length_foldl_update: "length (foldl (\<lambda>s bit. s[bit := v]) s bits) = length s"
  by (induction bits arbitrary: s) simp_all

lemma nth_foldl_update:
  "i < length s \<Longrightarrow>
     foldl (\<lambda>s bit. s[bit := v]) s bits ! i = (if i \<in> set bits then v else s ! i)"
proof (induction bits arbitrary: s)
  case Nil
  then show ?case by simp
next
  case (Cons b bits)
  have "i < length (s[b := v])" using Cons.prems by simp
  from Cons.IH [OF this] show ?case
    using Cons.prems by (simp add: nth_list_update)
qed

lemma length_set_bits: "length (set_bits n bits) = n"
  by (simp add: set_bits_def length_foldl_update)

lemma nth_set_bits: "i < n \<Longrightarrow> set_bits n bits ! i = (if i \<in> set bits then 1 else 0)"
  by (simp add: set_bits_def nth_foldl_update)

lemma chosen_set_bits:
  assumes "sorted_wrt (<) bits" and "set bits \<subseteq> {..<n}"
  shows "chosen (set_bits n bits) = bits"
proof -
  have "chosen (set_bits n bits) = filter (\<lambda>i. i \<in> set bits) [0..<n]"
    unfolding chosen_def length_set_bits
    by (rule filter_cong) (simp_all add: nth_set_bits)
  also have "\<dots> = bits"
  proof (rule sorted_distinct_set_unique)
    show "sorted (filter (\<lambda>i. i \<in> set bits) [0..<n])" by (simp add: sorted_wrt_filter)
    show "distinct (filter (\<lambda>i. i \<in> set bits) [0..<n])" by simp
    show "sorted bits" "distinct bits" using assms(1) by (simp_all add: strict_sorted_iff)
    show "set (filter (\<lambda>i. i \<in> set bits) [0..<n]) = set bits" using assms(2) by auto
  qed
  finally show ?thesis .
qed

lemma set_bits_chosen:
  assumes "set v \<subseteq> {0, 1}"
  shows "set_bits (length v) (chosen v) = v"
proof (rule nth_equalityI)
  show "length (set_bits (length v) (chosen v)) = length v" by (rule length_set_bits)
next
  fix i assume "i < length (set_bits (length v) (chosen v))"
  then have i: "i < length v" by (simp add: length_set_bits)
  then have "v ! i \<in> {0, 1}" using assms by (meson nth_mem subsetD)
  then have "v ! i = 0 \<or> v ! i = 1" by simp
  moreover have "i \<in> set (chosen v) \<longleftrightarrow> v ! i = 1"
    using i by (simp add: chosen_def)
  ultimately show "set_bits (length v) (chosen v) ! i = v ! i"
    using i by (auto simp: nth_set_bits)
qed

lemma sorted_wrt_concat:
  "sorted_wrt R (concat xss) \<longleftrightarrow>
     (\<forall>xs \<in> set xss. sorted_wrt R xs)
     \<and> sorted_wrt (\<lambda>xs ys. \<forall>x \<in> set xs. \<forall>y \<in> set ys. R x y) xss"
  by (induction xss) (auto simp: sorted_wrt_append)

lemma sorted_wrt_irrefl_distinct:
  "sorted_wrt R xs \<Longrightarrow> (\<And>x. \<not> R x x) \<Longrightarrow> distinct xs"
  by (induction xs) auto

lemma get_item_combos_index_lists: "get_item_combos n = map (set_bits n) (index_lists n)"
  by (simp add: get_item_combos_def index_lists_def map_concat comp_def)

lemma index_lists_elem:
  assumes "bits \<in> set (index_lists n)"
  shows "sorted_wrt (<) bits \<and> set bits \<subseteq> {..<n} \<and> bits \<noteq> []"
proof -
  from assms obtain k where k: "bits \<in> set (combinations [0..<n] (Suc k))"
    by (auto simp: index_lists_def)
  have "sorted_wrt (<) bits" using combinations_sorted [OF _ k] by simp
  moreover from combinations_elem [OF k] have "length bits = Suc k" "set bits \<subseteq> set [0..<n]"
    by simp_all
  ultimately show ?thesis by auto
qed

lemma length_index_lists: "length (index_lists n) = 2 ^ n - 1"
proof -
  have "length (index_lists n) = sum_list (map (\<lambda>k. n choose Suc k) [0..<n])"
    by (simp add: index_lists_def length_concat comp_def length_combinations)
  also have "\<dots> = (\<Sum>k<n. n choose Suc k)"
    by (simp add: interv_sum_list_conv_sum_set_nat atLeast0LessThan)
  finally have a: "length (index_lists n) = (\<Sum>k<n. n choose Suc k)" .
  have "(2::nat) ^ n = (\<Sum>k\<le>n. n choose k)" by (simp add: choose_row_sum)
  also have "\<dots> = (\<Sum>k<Suc n. n choose k)" by (simp add: lessThan_Suc_atMost)
  also have "\<dots> = (n choose 0) + (\<Sum>k<n. n choose Suc k)" by (rule sum.lessThan_Suc_shift)
  finally have "(2::nat) ^ n = 1 + (\<Sum>k<n. n choose Suc k)" by simp
  with a show ?thesis by simp
qed

lemma index_lists_ordered: "sorted_wrt index_before (index_lists n)"
  unfolding index_lists_def sorted_wrt_concat
proof (intro conjI ballI)
  fix g assume "g \<in> set (map (\<lambda>k. combinations [0..<n] (Suc k)) [0..<n])"
  then obtain k where g: "g = combinations [0..<n] (Suc k)" by auto
  have s: "sorted_wrt index_less g" unfolding g by (rule combinations_ordered) simp
  show "sorted_wrt index_before g"
  proof (rule sorted_wrt_mono_rel [OF _ s])
    fix a b assume "a \<in> set g" "b \<in> set g" "index_less a b"
    moreover from this have "length a = Suc k" "length b = Suc k"
      using combinations_elem unfolding g by blast+
    ultimately show "index_before a b" by (simp add: index_before_def)
  qed
next
  have "sorted_wrt (\<lambda>j k. \<forall>a \<in> set (combinations [0..<n] (Suc j)).
                           \<forall>b \<in> set (combinations [0..<n] (Suc k)). index_before a b) [0..<n]"
  proof (rule sorted_wrt_mono_rel [OF _ sorted_wrt_upt])
    fix j k :: nat assume "j < k"
    show "\<forall>a \<in> set (combinations [0..<n] (Suc j)).
            \<forall>b \<in> set (combinations [0..<n] (Suc k)). index_before a b"
    proof (intro ballI)
      fix a b assume "a \<in> set (combinations [0..<n] (Suc j))" "b \<in> set (combinations [0..<n] (Suc k))"
      then have "length a = Suc j" "length b = Suc k" using combinations_elem by blast+
      then show "index_before a b" using \<open>j < k\<close> by (simp add: index_before_def)
    qed
  qed
  then show "sorted_wrt (\<lambda>xs ys. \<forall>x \<in> set xs. \<forall>y \<in> set ys. index_before x y)
               (map (\<lambda>k. combinations [0..<n] (Suc k)) [0..<n])"
    by (simp add: sorted_wrt_map)
qed

lemma get_item_combos_ordered: "sorted_wrt combo_before (get_item_combos n)"
proof -
  have "sorted_wrt (\<lambda>a b. combo_before (set_bits n a) (set_bits n b)) (index_lists n)"
  proof (rule sorted_wrt_mono_rel [OF _ index_lists_ordered])
    fix a b assume "a \<in> set (index_lists n)" "b \<in> set (index_lists n)" "index_before a b"
    moreover from this have "chosen (set_bits n a) = a" "chosen (set_bits n b) = b"
      using index_lists_elem chosen_set_bits by blast+
    ultimately show "combo_before (set_bits n a) (set_bits n b)"
      by (simp add: combo_before_def index_before_def)
  qed
  then show ?thesis by (simp add: get_item_combos_index_lists sorted_wrt_map)
qed

lemma combo_before_irrefl: "\<not> combo_before a a"
  by (simp add: combo_before_def index_less_irrefl)

lemma set_get_item_combos:
  "set (get_item_combos n) = {v. length v = n \<and> set v \<subseteq> {0, 1} \<and> v \<noteq> replicate n 0}"
proof (intro set_eqI iffI)
  fix v :: "int list" assume "v \<in> set (get_item_combos n)"
  then obtain bits where v: "v = set_bits n bits" and b: "bits \<in> set (index_lists n)"
    by (auto simp: get_item_combos_index_lists)
  from index_lists_elem [OF b] have sub: "set bits \<subseteq> {..<n}" and ne: "bits \<noteq> []" by simp_all
  have len: "length v = n" by (simp add: v length_set_bits)
  have "set v \<subseteq> {0, 1}"
  proof
    fix x assume "x \<in> set v"
    then obtain i where "i < n" "x = v ! i" using len by (auto simp: in_set_conv_nth)
    then show "x \<in> {0, 1}" by (simp add: v nth_set_bits)
  qed
  moreover have "v \<noteq> replicate n 0"
  proof
    assume eq: "v = replicate n 0"
    from ne obtain i where i: "i \<in> set bits" by (cases bits) auto
    then have "i < n" using sub by auto
    then have "v ! i = 1" using i by (simp add: v nth_set_bits)
    moreover have "v ! i = 0" using \<open>i < n\<close> by (simp add: eq)
    ultimately show False by simp
  qed
  ultimately show "v \<in> {v. length v = n \<and> set v \<subseteq> {0, 1} \<and> v \<noteq> replicate n 0}"
    using len by simp
next
  fix v :: "int list" assume "v \<in> {v. length v = n \<and> set v \<subseteq> {0, 1} \<and> v \<noteq> replicate n 0}"
  then have len: "length v = n" and bin: "set v \<subseteq> {0, 1}" and nz: "v \<noteq> replicate n 0"
    by simp_all
  have ne: "chosen v \<noteq> []"
  proof
    assume e: "chosen v = []"
    have "v = replicate n 0"
    proof (rule nth_equalityI)
      show "length v = length (replicate n (0::int))" by (simp add: len)
    next
      fix i assume i: "i < length v"
      then have "v ! i \<in> {0, 1}" using bin by (meson nth_mem subsetD)
      moreover have "v ! i \<noteq> 1"
      proof
        assume "v ! i = 1"
        then have "i \<in> set (chosen v)" using i by (simp add: chosen_def)
        then show False by (simp add: e)
      qed
      ultimately show "v ! i = replicate n 0 ! i" using i len by simp
    qed
    with nz show False by simp
  qed
  then obtain k where k: "length (chosen v) = Suc k" by (cases "chosen v") auto
  have "length (chosen v) \<le> n" unfolding chosen_def len
    using length_filter_le [of "\<lambda>i. v ! i = 1" "[0..<n]"] by simp
  then have kn: "k < n" using k by simp
  have "chosen v \<in> set (combinations [0..<n] (length (chosen v)))"
    unfolding chosen_def len by (rule filter_in_combinations)
  then have "chosen v \<in> set (combinations [0..<n] (Suc k))" by (simp add: k)
  then have "chosen v \<in> set (index_lists n)"
    using kn by (auto simp: index_lists_def)
  then have "set_bits n (chosen v) \<in> set (get_item_combos n)"
    by (simp add: get_item_combos_index_lists)
  then show "v \<in> set (get_item_combos n)"
    using set_bits_chosen [OF bin] by (simp add: len)
qed

text \<open>
  C5. For every \<open>n\<close>, \<^verbatim>\<open>get_item_combos(n)\<close> returns \<open>2 ^ n - 1\<close> vectors without
  repetition; they are exactly the vectors of length \<open>n\<close> over 0 and 1 other than the
  all-zero one, that is, one vector for every choice of \<open>k\<close> indices with \<open>k\<close> from 1 to
  \<open>n\<close>; they come grouped by increasing \<open>k\<close> and, within a group, in lexicographic
  order of the chosen indices; and for \<open>n = 0\<close> the result is empty.
\<close>

theorem get_item_combos_enumeration:
  "length (get_item_combos n) = 2 ^ n - 1
   \<and> distinct (get_item_combos n)
   \<and> set (get_item_combos n) = {v. length v = n \<and> set v \<subseteq> {0, 1} \<and> v \<noteq> replicate n 0}
   \<and> sorted_wrt combo_before (get_item_combos n)
   \<and> get_item_combos 0 = []"
proof (intro conjI)
  show "length (get_item_combos n) = 2 ^ n - 1"
    by (simp add: get_item_combos_index_lists length_index_lists)
  show "distinct (get_item_combos n)"
    using get_item_combos_ordered combo_before_irrefl by (rule sorted_wrt_irrefl_distinct)
  show "set (get_item_combos n) = {v. length v = n \<and> set v \<subseteq> {0, 1} \<and> v \<noteq> replicate n 0}"
    by (rule set_get_item_combos)
  show "sorted_wrt combo_before (get_item_combos n)"
    by (rule get_item_combos_ordered)
  show "get_item_combos 0 = []"
    by (simp add: get_item_combos_def)
qed

theorem get_item_combos_enumeration_witness:
  "length (get_item_combos 2) = 3 \<and> distinct (get_item_combos 2)
   \<and> sorted_wrt combo_before (get_item_combos 2)
   \<and> get_item_combos 2 = [[1, 0], [0, 1], [1, 1]]"
proof -
  have "get_item_combos 2 = [[1, 0], [0, 1], [1, 1]]" by code_simp
  moreover have "(2::nat) ^ 2 - 1 = 3" by simp
  ultimately show ?thesis using get_item_combos_enumeration [of 2] by metis
qed

section \<open>The code behind the length check\<close>

text \<open>
  The three loops of \<^verbatim>\<open>is_valid_combo\<close>, run on a menu and a selection vector of equal
  length, decide whether every requested item is among the items of a combo whose flag is
  positive. The call of \<^verbatim>\<open>is_valid_combo\<close> itself never gets to them.
\<close>

lemma init_has_items_eq:
  "init_has_items items h = (\<lambda>k. if k \<in> set items then Some False else h k)"
  by (induction items arbitrary: h) (auto simp: fun_eq_iff)

lemma mark_combo_eq:
  "mark_combo combo ys h =
     (\<lambda>k. if k \<in> (\<lambda>y. combo ! (y + 1)) ` set ys then Some True else h k)"
  by (induction ys arbitrary: h) (auto simp: fun_eq_iff)

lemma tail_items: "(\<lambda>y. combo ! (y + 1)) ` set [0..<length combo - 1] = set (drop 1 combo)"
proof (cases combo)
  case Nil
  then show ?thesis by simp
next
  case (Cons c cs)
  have "set cs = {cs ! i |i. i < length cs}" by (rule set_conv_nth)
  also have "\<dots> = (\<lambda>y. cs ! y) ` {0..<length cs}" by auto
  finally show ?thesis by (simp add: Cons)
qed

lemma mark_combo_items:
  "mark_combo combo [0..<length combo - 1] h =
     (\<lambda>k. if k \<in> set (drop 1 combo) then Some True else h k)"
  by (simp only: mark_combo_eq tail_items)

lemma mark_loop_eq:
  assumes "\<forall>x \<in> set xs. x < length menu"
  shows "mark_loop menu item_combo xs h =
           Inr (\<lambda>k. if \<exists>x \<in> set xs. item_combo ! x > 0 \<and> k \<in> set (drop 1 (menu ! x))
                    then Some True else h k)"
  using assms
proof (induction xs arbitrary: h)
  case Nil
  then show ?case by simp
next
  case (Cons x xs)
  have ih: "mark_loop menu item_combo xs h' =
           Inr (\<lambda>k. if \<exists>x \<in> set xs. item_combo ! x > 0 \<and> k \<in> set (drop 1 (menu ! x))
                    then Some True else h' k)" for h'
    using Cons.IH Cons.prems by simp
  have x: "x < length menu" using Cons.prems by simp
  show ?case
  proof (cases "item_combo ! x > 0")
    case True
    then show ?thesis using x
      by (simp only: mark_loop.simps ih mark_combo_items) (auto simp: fun_eq_iff)
  next
    case False
    then show ?thesis by (simp add: ih)
  qed
qed

lemma check_items_eq:
  assumes "\<forall>item \<in> set items. h item \<noteq> None"
  shows "check_items items h = Inr (\<forall>item \<in> set items. h item = Some True)"
  using assms by (induction items) (auto split: option.splits)

lemma bex_upt: "(\<exists>x \<in> set [0..<n]. Q x) = (\<exists>x<n. Q x)"
proof
  assume "\<exists>x \<in> set [0..<n]. Q x"
  then obtain x where "x \<in> set [0..<n]" and q: "Q x" by blast
  then have "x < n" by simp
  with q show "\<exists>x<n. Q x" by blast
next
  assume "\<exists>x<n. Q x"
  then obtain x where "x < n" and q: "Q x" by blast
  then have "x \<in> set [0..<n]" by simp
  with q show "\<exists>x \<in> set [0..<n]. Q x" by blast
qed

lemma coverage_loops:
  assumes "length menu = length item_combo"
  shows "(case mark_loop menu item_combo [0..<length item_combo] (init_has_items items Map.empty) of
            Inl e \<Rightarrow> Inl e
          | Inr has_items \<Rightarrow> check_items items has_items)
         = Inr (\<forall>item \<in> set items.
                  \<exists>x < length item_combo. item_combo ! x > 0 \<and> item \<in> set (drop 1 (menu ! x)))"
proof -
  let ?h = "\<lambda>k. if \<exists>x \<in> set [0..<length item_combo].
                       item_combo ! x > 0 \<and> k \<in> set (drop 1 (menu ! x))
                 then Some True else init_has_items items Map.empty k"
  have m: "mark_loop menu item_combo [0..<length item_combo] (init_has_items items Map.empty)
             = Inr ?h"
    by (rule mark_loop_eq) (simp add: assms)
  have "\<forall>item \<in> set items. ?h item \<noteq> None"
    by (auto simp: init_has_items_eq)
  then have "check_items items ?h = Inr (\<forall>item \<in> set items. ?h item = Some True)"
    by (rule check_items_eq)
  also have "(\<forall>item \<in> set items. ?h item = Some True) \<longleftrightarrow>
             (\<forall>item \<in> set items.
                  \<exists>x < length item_combo. item_combo ! x > 0 \<and> item \<in> set (drop 1 (menu ! x)))"
    by (simp only: bex_upt init_has_items_eq) auto
  finally show ?thesis by (simp only: m sum.case)
qed

text \<open>
  The loop of \<^verbatim>\<open>get_price\<close>, run on a menu and a selection vector of equal length
  whose costs all read as finite numbers, adds up cost times flag. The call of
  \<^verbatim>\<open>get_price\<close> itself never gets to it.
\<close>

lemma price_loop_sum:
  assumes "\<forall>i \<in> set xs. i < length menu \<and> menu ! i \<noteq> [] \<and> parse (menu ! i ! 0) = Some (Fin (price i))"
  shows "price_loop parse menu item_combo xs (Fin a) =
           Inr (Fin (a + sum_list (map (\<lambda>i. price i * of_int (item_combo ! i)) xs)))"
  using assms
proof (induction xs arbitrary: a)
  case Nil
  then show ?case by simp
next
  case (Cons i xs)
  have ih: "price_loop parse menu item_combo xs (Fin b) =
           Inr (Fin (b + sum_list (map (\<lambda>i. price i * of_int (item_combo ! i)) xs)))" for b
    using Cons.IH Cons.prems by simp
  have "i < length menu" "menu ! i \<noteq> []" "parse (menu ! i ! 0) = Some (Fin (price i))"
    using Cons.prems by simp_all
  then show ?case by (simp add: ih add.assoc)
qed

lemma price_loop_total:
  assumes "length menu = length item_combo"
    and "\<forall>i < length menu. menu ! i \<noteq> [] \<and> parse (menu ! i ! 0) = Some (Fin (price i))"
  shows "price_loop parse menu item_combo [0..<length item_combo] (Fin 0) =
           Inr (Fin (\<Sum>i<length menu. price i * of_int (item_combo ! i)))"
proof -
  have "price_loop parse menu item_combo [0..<length item_combo] (Fin 0) =
          Inr (Fin (0 + sum_list (map (\<lambda>i. price i * of_int (item_combo ! i)) [0..<length item_combo])))"
    by (rule price_loop_sum) (simp add: assms)
  then show ?thesis
    by (simp add: interv_sum_list_conv_sum_set_nat atLeast0LessThan assms(1))
qed

text \<open>
  The block of the driver: when the restaurant has a reduced menu and \<^verbatim>\<open>get_min_cost\<close>
  returns a cost, the running best is replaced exactly when that cost is strictly less,
  and a cost is never strictly less than itself. The best is kept when there is no
  reduced menu.
\<close>

lemma float_lt_irrefl: "\<not> float_lt a a"
  by (cases a) simp_all

lemma check_restaurant_update:
  assumes "menu \<noteq> []" and "reduce_menu menu items = Some reduced_menu"
    and "get_min_cost parse reduced_menu items = Inr (Some curr_min_cost)"
    and "py_float parse curr_min_cost = Inr c" and "py_float parse (fst best) = Inr m"
  shows "check_restaurant parse items menu curr_restaurant best =
           Inr (if float_lt c m then (curr_min_cost, curr_restaurant) else best)"
  using assms by (simp add: check_restaurant_def)

lemma check_restaurant_skip:
  assumes "menu = [] \<or> reduce_menu menu items = None"
  shows "check_restaurant parse items menu curr_restaurant best = Inr best"
  using assms by (auto simp: check_restaurant_def)

end
